theory Spec2Isabelle
  imports Main "HOL-Library.AList"
begin

section \<open>Go runtime and library notions used by the code\<close>

text \<open>
  A Go panic ends the call that raises it; the model returns it as the left summand.
  \<open>IndexOutOfRange i n\<close> is the runtime error of indexing a slice of length \<open>n\<close> at
  \<open>i\<close>, \<open>NilDereference\<close> the one of \<open>*p\<close> on a nil pointer, \<open>TypeAssertion\<close> the one of
  a single-valued \<open>x.(T)\<close> on a value of another dynamic type, \<open>Explicit msg\<close> a call
  of \<open>panic(msg)\<close>.
\<close>

datatype panic =
    IndexOutOfRange nat nat
  | NilDereference
  | TypeAssertion
  | Explicit string

text \<open>Slice indexing \<open>xs[i]\<close>, with the run-time bounds check written out.\<close>

definition index :: "'a list \<Rightarrow> nat \<Rightarrow> panic + 'a" where
  "index xs i = (if i < length xs then Inr (xs ! i) else Inl (IndexOutOfRange i (length xs)))"

text \<open>\<open>strings.HasPrefix\<close> and \<open>strings.TrimPrefix\<close>.\<close>

definition strings_HasPrefix :: "string \<Rightarrow> string \<Rightarrow> bool" where
  "strings_HasPrefix s p = (take (length p) s = p)"

definition strings_TrimPrefix :: "string \<Rightarrow> string \<Rightarrow> string" where
  "strings_TrimPrefix s p = (if strings_HasPrefix s p then drop (length p) s else s)"

text \<open>
  \<open>strings.SplitN(s, sep, -1)\<close>, the only way the code calls it: all the substrings
  between the non-overlapping occurrences of \<open>sep\<close>, found from the left. \<open>splitFrom\<close>
  walks the string with the piece read so far (reversed) in \<open>cur\<close>. An empty separator
  splits after every byte.
\<close>

fun splitFrom :: "string \<Rightarrow> string \<Rightarrow> string \<Rightarrow> string list" where
  "splitFrom sep cur [] = [rev cur]"
| "splitFrom sep cur (c # cs) =
     (if take (length sep) (c # cs) = sep
      then rev cur # splitFrom sep [] (drop (length sep - 1) cs)
      else splitFrom sep (c # cur) cs)"

definition strings_SplitAll :: "string \<Rightarrow> string \<Rightarrow> string list" where
  "strings_SplitAll s sep = (if sep = [] then map (\<lambda>c. [c]) s else splitFrom sep [] s)"

text \<open>\<open>strings.Join\<close>.\<close>

fun strings_Join :: "string list \<Rightarrow> string \<Rightarrow> string" where
  "strings_Join [] sep = []"
| "strings_Join [x] sep = x"
| "strings_Join (x # y # ys) sep = x @ sep @ strings_Join (y # ys) sep"

text \<open>\<open>slices.Contains\<close>.\<close>

definition slices_Contains :: "'a list \<Rightarrow> 'a \<Rightarrow> bool" where
  "slices_Contains xs x = (x \<in> set xs)"

section \<open>The binding table (package dom)\<close>

text \<open>
  \<open>Bindings.eventTemplates\<close> is a \<open>map[string]map[string]struct{}\<close>: from the key
  \<open>event:state\<close> to a set of template names. The inner set is kept as a list without
  repetitions; the order in which Go enumerates a map is not specified, so nothing
  below depends on the order of that list. The mutex, the route id and the template
  handle of the struct play no part in the functions modelled here.
\<close>

record Bindings =
  eventTemplates :: "string \<rightharpoonup> string list"

text \<open>
  \<open>templateNameRegex\<close> is \<open>^[ A-Za-z0-9\-:]*$\<close>: every byte of the name is a space, a
  letter, a digit, a hyphen or a colon.
\<close>

definition templateNameChar :: "char \<Rightarrow> bool" where
  "templateNameChar c =
     (let n = (of_char c :: nat) in
        n = of_char (CHR '' '')
      \<or> (of_char (CHR ''A'') \<le> n \<and> n \<le> of_char (CHR ''Z''))
      \<or> (of_char (CHR ''a'') \<le> n \<and> n \<le> of_char (CHR ''z''))
      \<or> (of_char (CHR ''0'') \<le> n \<and> n \<le> of_char (CHR ''9''))
      \<or> n = of_char (CHR ''-'')
      \<or> n = of_char (CHR '':''))"

definition templateNameRegex_MatchString :: "string \<Rightarrow> bool" where
  "templateNameRegex_MatchString s = list_all templateNameChar s"

definition RouteBindings :: Bindings where
  "RouteBindings = \<lparr>eventTemplates = Map.empty\<rparr>"

text \<open>
  What \<open>klog.Errorf\<close> is called with: the format error of \<open>eventFormatError\<close> (with the
  namespace it reports) or the invalid-template-name message (with the name).
\<close>

datatype logged =
    EventFormatError string
  | InvalidTemplateName string

type_synonym scan = "Bindings \<times> logged list"

text \<open>
  The body of the attribute loop of \<open>Bindings.AddFile\<close> from the second split on: the
  namespace \<open>eventns\<close> is the first \<open>.\<close>-segment of the attribute key. \<open>continue\<close> returns
  the state, with the logged line when there is one.
\<close>

definition bindEventns :: "string \<Rightarrow> scan \<Rightarrow> panic + scan" where
  "bindEventns eventns st =
     (let b = fst st; lg = snd st;
          eventnsParts = strings_SplitAll eventns ''::''
      in if length eventnsParts = 0 then Inr st
         else if length eventnsParts > 2 then Inr (b, lg @ [EventFormatError eventns])
         else
           let eventID = eventnsParts ! 0;
               eventIDParts = strings_SplitAll eventID '':''
           in if length eventIDParts \<noteq> 2 then Inr (b, lg @ [EventFormatError eventns])
              else if \<not> slices_Contains [''ok'', ''error'', ''pending'', ''done''] (eventIDParts ! 1)
                then Inr (b, lg @ [EventFormatError eventns])
              else if length eventnsParts = 2
                      \<and> \<not> slices_Contains [''ok'', ''error''] (eventIDParts ! 1)
                then Inr (b, lg @ [EventFormatError eventns])
              else
                (case (if length eventnsParts = 2 then index eventnsParts 2 else Inr ''-'') of
                   Inl p \<Rightarrow> Inl p
                 | Inr templateName \<Rightarrow>
                     let templates = (case eventTemplates b eventID of
                                        None \<Rightarrow> [] | Some ts \<Rightarrow> ts)
                     in if \<not> templateNameRegex_MatchString templateName
                        then Inr (b, lg @ [InvalidTemplateName templateName])
                        else Inr (b\<lparr>eventTemplates :=
                                      (eventTemplates b)(eventID \<mapsto> List.insert templateName templates)\<rparr>,
                                  lg)))"

text \<open>The whole body of the attribute loop, for the attribute key \<open>key\<close>.\<close>

definition bindAttr :: "string \<Rightarrow> scan \<Rightarrow> panic + scan" where
  "bindAttr key st =
     (if strings_HasPrefix key ''@fir:'' \<or> strings_HasPrefix key ''x-on:fir:'' then
        let eventns = strings_TrimPrefix key ''@fir:'';
            eventns = strings_TrimPrefix eventns ''x-on:fir:'';
            eventnsParts = strings_SplitAll eventns ''.''
        in if length eventnsParts > 3 then Inr (fst st, snd st @ [EventFormatError eventns])
           else bindEventns (if length eventnsParts > 0 then eventnsParts ! 0 else eventns) st
      else Inr st)"

text \<open>
  The loops of \<open>AddFile\<close>: over the attributes of a node, and over the nodes that
  \<open>doc.Find("*")\<close> selects. A panic in the body ends both.
\<close>

fun scanAttrs :: "string list \<Rightarrow> scan \<Rightarrow> panic + scan" where
  "scanAttrs [] st = Inr st"
| "scanAttrs (key # keys) st =
     (case bindAttr key st of Inl p \<Rightarrow> Inl p | Inr st' \<Rightarrow> scanAttrs keys st')"

fun scanNodes :: "string list list \<Rightarrow> scan \<Rightarrow> panic + scan" where
  "scanNodes [] st = Inr st"
| "scanNodes (attrs # nodes) st =
     (case scanAttrs attrs st of Inl p \<Rightarrow> Inl p | Inr st' \<Rightarrow> scanNodes nodes st')"

text \<open>
  The reader either fails to parse (\<open>AddFile\<close> panics with the parser's error) or gives a
  document: its elements in document order, each with the keys of its attributes.
\<close>

datatype reader = Unreadable string | Document "string list list"

definition AddFile :: "reader \<Rightarrow> Bindings \<Rightarrow> panic + scan" where
  "AddFile rd b =
     (case rd of
        Unreadable err \<Rightarrow> Inl (Explicit err)
      | Document nodes \<Rightarrow> scanNodes nodes (b, []))"

definition TemplateNames :: "Bindings \<Rightarrow> string \<Rightarrow> string list" where
  "TemplateNames b eventIDWithState =
     (case eventTemplates b eventIDWithState of None \<Rightarrow> [] | Some templates \<Rightarrow> templates)"

section \<open>Events and the route (package fir)\<close>

text \<open>
  A value of Go's \<open>any\<close>, by dynamic type: nil, a string, an integer, a
  \<open>map[string]any\<close>, a \<open>map[string]string\<close>, or the value that
  \<open>newRouteDOMContext\<close> builds from the field errors.
\<close>

datatype any =
    AnyNil
  | AnyString string
  | AnyInt int
  | AnyMap "(string \<times> any) list"
  | AnyStringMap "(string \<times> string) list"
  | AnyRouteDOMContext "(string \<times> any) list"

text \<open>
  Modelled from the spec: package \<open>eventstate\<close> is not among the sources. The spec
  gives the four lifecycle states by the names that appear in binding keys; the code
  formats a state with \<open>%s\<close> into such a key, so a state is the string of its name.
\<close>

type_synonym eventstate = string

definition eventstate_OK :: eventstate where "eventstate_OK = ''ok''"

definition eventstate_Error :: eventstate where "eventstate_Error = ''error''"

definition eventstate_Pending :: eventstate where "eventstate_Pending = ''pending''"

definition eventstate_Done :: eventstate where "eventstate_Done = ''done''"

text \<open>
  \<open>pubsub.Event\<close>, by the fields the code reads (its declaration is not among the
  sources): \<open>ID\<close>, \<open>Target\<close> and \<open>SessionID\<close> are pointers, \<open>None\<close> when nil.
\<close>

record pubsub_Event =
  evID :: "string option"
  evState :: eventstate
  evTarget :: "string option"
  evDetail :: any
  evSessionID :: "string option"

text \<open>\<open>dom.Event\<close>: \<open>Type\<close> and \<open>Target\<close> are pointers.\<close>

record dom_Event =
  Type :: "string option"
  Target :: "string option"
  Detail :: any
  ID :: string
  State :: eventstate

text \<open>
  The two collaborators of \<open>buildTemplateValue\<close>. A template handle executes the
  template of a name on data and gives the bytes written or the engine's error
  (\<open>Inl\<close>); the minifier gives the minified bytes or the error of the copy.
\<close>

type_synonym Template = "string \<Rightarrow> any \<Rightarrow> string + string"

type_synonym Minifier = "string \<Rightarrow> string + string"

text \<open>
  A value of the session cache (go-cache stores \<open>any\<close>): a \<open>map[string]string\<close>, as
  \<open>trackErrors\<close> stores it, or a value of another type. The map is an association
  list with one entry per key; its order stands for the unspecified order in which Go
  enumerates the map.
\<close>

datatype cache_value =
    StringMap "(string \<times> string) list"
  | OtherValue

record route =
  bindings :: Bindings
  template :: "Template option"
  cache :: "string \<rightharpoonup> cache_value"

record RouteContext =
  route :: route

text \<open>
  Modelled from the spec: \<open>newRouteDOMContext\<close> is not among the sources; it wraps the
  field errors in a rendering context object.
\<close>

definition newRouteDOMContext :: "RouteContext \<Rightarrow> (string \<times> any) list \<Rightarrow> any" where
  "newRouteDOMContext ctx errs = AnyRouteDOMContext errs"

definition fir :: "string list \<Rightarrow> string option" where
  "fir parts = Some (strings_Join (''fir'' # parts) '':'')"

text \<open>\<open>fmt.Sprintf("%s:%s", *pubsubEvent.ID, pubsubEvent.State)\<close>, the pointer read already.\<close>

definition eventIDWithState :: "string \<Rightarrow> eventstate \<Rightarrow> string" where
  "eventIDWithState eid st = eid @ '':'' @ st"

text \<open>
  \<open>buildTemplateValue\<close> of controller.go. The result is the panic, or Go's pair: the
  error (\<open>Inl\<close>, returned with the empty string) or the value with a nil error.
\<close>

definition buildTemplateValue ::
  "Minifier \<Rightarrow> Template option \<Rightarrow> string \<Rightarrow> any \<Rightarrow> panic + (string + string)" where
  "buildTemplateValue mini t name data' =
     (case t of
        None \<Rightarrow> Inr (Inr '''')
      | Some tmpl \<Rightarrow>
          if name = '''' then Inr (Inr '''')
          else
            (case (if name = ''_fir_html''
                   then (case data' of AnyString s \<Rightarrow> Inr (Inr s) | _ \<Rightarrow> Inl TypeAssertion)
                   else Inr (tmpl name data')) of
               Inl p \<Rightarrow> Inl p
             | Inr (Inl err) \<Rightarrow> Inr (Inl err)
             | Inr (Inr dataBuf) \<Rightarrow> Inr (mini dataBuf)))"

text \<open>
  \<open>buildTemplateValue\<close> as the file of \<open>domEvents\<close> has it: no check of the handle or
  of the name. \<open>t.Option\<close> reads through the handle, so a nil handle panics there.
\<close>

definition buildTemplateValue_domEvents ::
  "Minifier \<Rightarrow> Template option \<Rightarrow> string \<Rightarrow> any \<Rightarrow> panic + (string + string)" where
  "buildTemplateValue_domEvents mini t name data' =
     (case (if name = ''_fir_html''
            then (case data' of AnyString s \<Rightarrow> Inr (Inr s) | _ \<Rightarrow> Inl TypeAssertion)
            else (case t of None \<Rightarrow> Inl NilDereference | Some tmpl \<Rightarrow> Inr (tmpl name data'))) of
        Inl p \<Rightarrow> Inl p
      | Inr (Inl err) \<Rightarrow> Inr (Inl err)
      | Inr (Inr buf) \<Rightarrow> Inr (mini buf))"

text \<open>
  The loop of \<open>renderDOMEvents\<close> over the template names, with \<open>events\<close> as built so
  far; \<open>eid\<close> is \<open>*pubsubEvent.ID\<close> and \<open>key\<close> is \<open>eventIDWithState\<close>. Each
  \<open>continue\<close> goes on with the remaining names; the lines it logs are not kept.
\<close>

fun renderLoop ::
  "Minifier \<Rightarrow> RouteContext \<Rightarrow> pubsub_Event \<Rightarrow> string \<Rightarrow> string \<Rightarrow> string list
     \<Rightarrow> dom_Event list \<Rightarrow> panic + dom_Event list" where
  "renderLoop mini ctx ev eid key [] events = Inr events"
| "renderLoop mini ctx ev eid key (templateName # rest) events =
     (if templateName = ''-'' then
        renderLoop mini ctx ev eid key rest
          (events @ [\<lparr>Type = fir [key], Target = evTarget ev, Detail = evDetail ev,
                       ID = eid, State = evState ev\<rparr>])
      else
        (case (if evState ev = eventstate_Error \<and> evDetail ev \<noteq> AnyNil
               then (case evDetail ev of
                       AnyMap errs \<Rightarrow> Some (AnyMap [(''fir'', newRouteDOMContext ctx errs)])
                     | _ \<Rightarrow> None)
               else Some (evDetail ev)) of
           None \<Rightarrow> renderLoop mini ctx ev eid key rest events
         | Some templateData \<Rightarrow>
             (case buildTemplateValue mini (template (route ctx)) templateName templateData of
                Inl p \<Rightarrow> Inl p
              | Inr (Inl err) \<Rightarrow> renderLoop mini ctx ev eid key rest events
              | Inr (Inr v) \<Rightarrow>
                  if evState ev = eventstate_Error \<and> v = ''''
                  then renderLoop mini ctx ev eid key rest events
                  else renderLoop mini ctx ev eid key rest
                         (events @ [\<lparr>Type = fir [key, templateName], Target = evTarget ev,
                                      Detail = AnyString v, ID = key, State = evState ev\<rparr>]))))"

text \<open>
  The first loop of \<open>trackErrors\<close>, on the pair of \<open>newErrors\<close> and \<open>newEvents\<close>:
  \<open>*event.Type\<close> and \<open>*event.Target\<close> are read for every event whose state is not ok.
\<close>

fun trackLoop ::
  "dom_Event list \<Rightarrow> (string \<times> string) list \<times> dom_Event list
     \<Rightarrow> panic + (string \<times> string) list \<times> dom_Event list" where
  "trackLoop [] acc = Inr acc"
| "trackLoop (event # events) (newErrors, newEvents) =
     (if State event = eventstate_OK then trackLoop events (newErrors, newEvents @ [event])
      else
        (case (Type event, Target event) of
           (Some ty, Some tg) \<Rightarrow>
             trackLoop events (AList.update ty tg newErrors, newEvents @ [event])
         | _ \<Rightarrow> Inl NilDereference))"

text \<open>The second loop of \<open>trackErrors\<close>, over the entries of \<open>prevErrors\<close>.\<close>

fun clearLoop ::
  "(string \<times> string) list \<Rightarrow> (string \<times> string) list \<Rightarrow> dom_Event list \<Rightarrow> dom_Event list" where
  "clearLoop [] newErrors newEvents = newEvents"
| "clearLoop ((k, v) # prevErrors) newErrors newEvents =
     (if map_of newErrors k \<noteq> None then clearLoop prevErrors newErrors newEvents
      else clearLoop prevErrors newErrors
             (newEvents @ [\<lparr>Type = Some k, Target = Some v, Detail = AnyString '''',
                             ID = '''', State = ''''\<rparr>]))"

text \<open>
  \<open>trackErrors\<close>: the events to send and the cache as \<open>cache.Set\<close> leaves it (the
  expiry of an entry is the cache's own business and is not modelled).
\<close>

definition trackErrors ::
  "RouteContext \<Rightarrow> pubsub_Event \<Rightarrow> dom_Event list
     \<Rightarrow> panic + dom_Event list \<times> (string \<rightharpoonup> cache_value)" where
  "trackErrors ctx ev events =
     (case evSessionID ev of
        None \<Rightarrow> Inl NilDereference
      | Some sid \<Rightarrow>
          (case (case cache (route ctx) sid of
                   Some (StringMap m) \<Rightarrow> Inr m
                 | Some OtherValue \<Rightarrow> Inl (Explicit ''fir: cache value is not a map[string]string'')
                 | None \<Rightarrow> Inr []) of
             Inl p \<Rightarrow> Inl p
           | Inr prevErrors \<Rightarrow>
               (case trackLoop events ([], []) of
                  Inl p \<Rightarrow> Inl p
                | Inr (newErrors, newEvents) \<Rightarrow>
                    let cache' = (cache (route ctx))(sid \<mapsto> StringMap newErrors);
                        newEvents = clearLoop prevErrors newErrors newEvents
                    in if length newEvents = 0 then
                         (case evID ev of
                            None \<Rightarrow> Inl NilDereference
                          | Some eid \<Rightarrow>
                              Inr ([\<lparr>Type = fir [eventIDWithState eid (evState ev)],
                                      Target = evTarget ev, Detail = evDetail ev,
                                      ID = eid, State = evState ev\<rparr>], cache'))
                       else Inr (newEvents, cache'))))"

definition renderDOMEvents ::
  "Minifier \<Rightarrow> RouteContext \<Rightarrow> pubsub_Event
     \<Rightarrow> panic + dom_Event list \<times> (string \<rightharpoonup> cache_value)" where
  "renderDOMEvents mini ctx ev =
     (case evID ev of
        None \<Rightarrow> Inl NilDereference
      | Some eid \<Rightarrow>
          let key = eventIDWithState eid (evState ev);
              templateNames = TemplateNames (bindings (route ctx)) key
          in (case renderLoop mini ctx ev eid key templateNames [] of
                Inl p \<Rightarrow> Inl p
              | Inr events \<Rightarrow> trackErrors ctx ev events))"
section \<open>Notions used to state the properties\<close>

text \<open>
  The modifiers of a binding key, as they are written after the namespace: each one
  after a dot.
\<close>

definition modifiers :: "string list \<Rightarrow> string" where
  "modifiers ms = concat (map (\<lambda>m. ''.'' @ m) ms)"

text \<open>The namespace that \<open>AddFile\<close> is left with after its two \<open>TrimPrefix\<close> calls.\<close>

definition stripPrefixes :: "string \<Rightarrow> string" where
  "stripPrefixes key = strings_TrimPrefix (strings_TrimPrefix key ''@fir:'') ''x-on:fir:''"

text \<open>
  The event that the second loop of \<open>trackErrors\<close> appends for an entry of the previous
  mapping, the list of them for the entries whose key the new mapping lacks, and the
  event that \<open>trackErrors\<close> returns when it has nothing else.
\<close>

definition clearingEvent :: "string \<Rightarrow> string \<Rightarrow> dom_Event" where
  "clearingEvent k v =
     \<lparr>Type = Some k, Target = Some v, Detail = AnyString '''', ID = '''', State = ''''\<rparr>"

definition clearingEvents ::
  "(string \<times> string) list \<Rightarrow> (string \<times> string) list \<Rightarrow> dom_Event list" where
  "clearingEvents prevErrors newErrors =
     map (\<lambda>(k, v). clearingEvent k v)
       (filter (\<lambda>(k, v). map_of newErrors k = None) prevErrors)"

definition fallbackEvent :: "pubsub_Event \<Rightarrow> string \<Rightarrow> dom_Event" where
  "fallbackEvent ev eid =
     \<lparr>Type = Some (''fir:'' @ eid @ '':'' @ evState ev), Target = evTarget ev,
      Detail = evDetail ev, ID = eid, State = evState ev\<rparr>"

section \<open>Concrete collaborators and inputs\<close>

text \<open>
  Small inputs on which the theorems below are run: a template handle that knows the
  one template \<open>name-error\<close>, a minifier that leaves its input as it is, a handle and a
  minifier that always fail; the table that scanning the attribute \<open>@fir:like:ok\<close>
  gives, a table of three bindings that a scan gives, and the table of the second
  scenario of the specification, with a template; routes with an empty session cache,
  with a cache value of a foreign type, and with the cache as the error event of the
  form leaves it; and bus events of the session \<open>s1\<close>.
\<close>

definition exampleTemplate :: Template where
  "exampleTemplate name d =
     (if name = ''name-error'' then Inr ''<span>required</span>''
      else Inl ''template: no such template'')"

definition exampleMinifier :: Minifier where
  "exampleMinifier s = Inr s"

definition failingTemplate :: Template where
  "failingTemplate name d = Inl ''template: execution failed''"

definition failingMinifier :: Minifier where
  "failingMinifier s = Inl ''minify: copy failed''"

definition likeBindings :: Bindings where
  "likeBindings = \<lparr>eventTemplates = [''like:ok'' \<mapsto> [''-'']]\<rparr>"

definition exampleBindings :: Bindings where
  "exampleBindings =
     \<lparr>eventTemplates = [''like:ok'' \<mapsto> [''-''], ''form:error'' \<mapsto> [''-''],
                         ''save:pending'' \<mapsto> [''-'']]\<rparr>"

definition templatedBindings :: Bindings where
  "templatedBindings = \<lparr>eventTemplates = [''form:error'' \<mapsto> [''name-error'']]\<rparr>"

definition nilTemplateContext :: RouteContext where
  "nilTemplateContext =
     \<lparr>route = \<lparr>bindings = RouteBindings, template = None, cache = Map.empty\<rparr>\<rparr>"

definition exampleContext :: RouteContext where
  "exampleContext =
     \<lparr>route = \<lparr>bindings = exampleBindings, template = Some exampleTemplate,
               cache = Map.empty\<rparr>\<rparr>"

definition templatedContext :: RouteContext where
  "templatedContext =
     \<lparr>route = \<lparr>bindings = templatedBindings, template = Some exampleTemplate,
               cache = Map.empty\<rparr>\<rparr>"

definition foreignCacheContext :: RouteContext where
  "foreignCacheContext =
     \<lparr>route = \<lparr>bindings = exampleBindings, template = Some exampleTemplate,
               cache = [''s1'' \<mapsto> OtherValue]\<rparr>\<rparr>"

definition errorSeenContext :: RouteContext where
  "errorSeenContext =
     \<lparr>route = \<lparr>bindings = exampleBindings, template = Some exampleTemplate,
               cache = [''s1'' \<mapsto> StringMap [(''fir:form:error'', ''#name-error'')]]\<rparr>\<rparr>"

definition formErrorEvent :: pubsub_Event where
  "formErrorEvent =
     \<lparr>evID = Some ''form'', evState = eventstate_Error, evTarget = Some ''#name-error'',
      evDetail = AnyMap [(''name'', AnyString ''required'')], evSessionID = Some ''s1''\<rparr>"

definition movedErrorEvent :: pubsub_Event where
  "movedErrorEvent = formErrorEvent\<lparr>evTarget := Some ''#other''\<rparr>"

definition formOkEvent :: pubsub_Event where
  "formOkEvent =
     \<lparr>evID = Some ''form'', evState = eventstate_OK, evTarget = None,
      evDetail = AnyNil, evSessionID = Some ''s1''\<rparr>"

definition likeEvent :: pubsub_Event where
  "likeEvent =
     \<lparr>evID = Some ''like'', evState = eventstate_OK, evTarget = Some ''#likes'',
      evDetail = AnyInt 42, evSessionID = Some ''s1''\<rparr>"

definition savePendingEvent :: pubsub_Event where
  "savePendingEvent =
     \<lparr>evID = Some ''save'', evState = eventstate_Pending, evTarget = Some ''#save'',
      evDetail = AnyNil, evSessionID = Some ''s1''\<rparr>"

definition savePendingDomEvent :: dom_Event where
  "savePendingDomEvent =
     \<lparr>Type = Some ''fir:save:pending'', Target = Some ''#save'', Detail = AnyNil,
      ID = ''save'', State = eventstate_Pending\<rparr>"

definition formErrorDomEvent :: "string \<Rightarrow> dom_Event" where
  "formErrorDomEvent target =
     \<lparr>Type = Some ''fir:form:error'', Target = Some target,
      Detail = AnyMap [(''name'', AnyString ''required'')], ID = ''form'',
      State = eventstate_Error\<rparr>"

definition formErrorRendered :: dom_Event where
  "formErrorRendered =
     \<lparr>Type = Some ''fir:form:error:name-error'', Target = Some ''#name-error'',
      Detail = AnyString ''<span>required</span>'', ID = ''form:error'',
      State = eventstate_Error\<rparr>"

section \<open>Scanning: the binding forms\<close>

lemmas bind_defs = bindAttr_def bindEventns_def strings_HasPrefix_def strings_TrimPrefix_def
  strings_SplitAll_def slices_Contains_def index_def Let_def

lemmas regex_defs = templateNameRegex_MatchString_def templateNameChar_def

text \<open>
  C1. The claim: every key of the forms \<open>ev:ok\<close>, \<open>ev:error\<close>, \<open>ev:pending\<close>,
  \<open>ev:done\<close>, \<open>ev:ok::tmpl\<close> and \<open>ev:error::tmpl\<close> is parsed and recorded. The code
  reads the template name at \<open>eventnsParts[2]\<close> of a slice that has two elements: on
  both template forms, under either prefix, the scan ends in the index panic and
  records nothing.
\<close>

theorem AddFile_template_form_panics:
  "AddFile (Document [[''@fir:ev:ok::tmpl'']]) RouteBindings = Inl (IndexOutOfRange 2 2)
   \<and> AddFile (Document [[''x-on:fir:ev:error::tmpl'']]) RouteBindings
       = Inl (IndexOutOfRange 2 2)"
  by (simp add: AddFile_def bind_defs)

text \<open>
  C5. The claim: a template name with a character outside the class is rejected with
  the invalid-template-name error and the scan goes on. The name \<open>bad_name\<close> does not
  match the expression, but the scan never reaches the match: it ends in the same
  index panic as for C1, before the name is read, and the next element is not scanned.
\<close>

theorem AddFile_invalid_template_name_panics:
  "\<not> templateNameRegex_MatchString ''bad_name''
   \<and> AddFile (Document [[''@fir:ev:ok::bad_name''], [''@fir:like:ok'']]) RouteBindings
       = Inl (IndexOutOfRange 2 2)"
  by (simp add: AddFile_def bind_defs regex_defs)

text \<open>The table of three bindings is what the scan of a document gives.\<close>

lemma AddFile_exampleBindings:
  "AddFile (Document [[''@fir:like:ok'', ''class''],
                      [''x-on:fir:form:error'', ''@fir:save:pending.prevent'']]) RouteBindings
     = Inr (exampleBindings, [])"
  by (simp add: AddFile_def bind_defs regex_defs exampleBindings_def RouteBindings_def)

section \<open>Scanning: modifiers\<close>

text \<open>Splitting at a one-byte separator: a piece without the byte is not cut.\<close>

lemma splitFrom_char_free:
  "c \<notin> set a \<Longrightarrow> splitFrom [c] cur a = [rev cur @ a]"
  by (induction a arbitrary: cur) auto

lemma splitFrom_char_segment:
  "c \<notin> set a \<Longrightarrow> splitFrom [c] cur (a @ c # r) = (rev cur @ a) # splitFrom [c] [] r"
  by (induction a arbitrary: cur) auto

lemma splitFrom_modifiers:
  "CHR ''.'' \<notin> set a \<Longrightarrow> \<forall>m\<in>set ms. CHR ''.'' \<notin> set m \<Longrightarrow>
     splitFrom ''.'' cur (a @ modifiers ms) = (rev cur @ a) # ms"
proof (induction ms arbitrary: a cur)
  case Nil
  then show ?case by (simp add: modifiers_def splitFrom_char_free)
next
  case (Cons m ms)
  have "a @ modifiers (m # ms) = a @ CHR ''.'' # (m @ modifiers ms)"
    by (simp add: modifiers_def)
  moreover have "splitFrom ''.'' [] (m @ modifiers ms) = m # ms"
    using Cons.IH [of m "[]"] Cons.prems by simp
  ultimately show ?case
    using Cons.prems by (simp add: splitFrom_char_segment)
qed

lemma SplitAll_modifiers:
  "CHR ''.'' \<notin> set a \<Longrightarrow> \<forall>m\<in>set ms. CHR ''.'' \<notin> set m \<Longrightarrow>
     strings_SplitAll (a @ modifiers ms) ''.'' = a # ms"
  using splitFrom_modifiers [of a ms "[]"] by (simp add: strings_SplitAll_def)

lemma modifiers_shape: "modifiers ms = [] \<or> (\<exists>r. modifiers ms = CHR ''.'' # r)"
  by (cases ms) (simp_all add: modifiers_def)

text \<open>
  A prefix without a dot is a prefix of \<open>s\<close> followed by a dot exactly when it is one
  of \<open>s\<close>: the modifiers cannot complete a prefix.
\<close>

lemma HasPrefix_before_dot:
  assumes "CHR ''.'' \<notin> set p" "x = [] \<or> (\<exists>r. x = CHR ''.'' # r)"
  shows "strings_HasPrefix (s @ x) p = strings_HasPrefix s p"
proof (cases "length p \<le> length s")
  case True
  then show ?thesis by (simp add: strings_HasPrefix_def)
next
  case False
  then have short: "length s < length p" by simp
  then have no: "\<not> strings_HasPrefix s p"
    by (auto simp: strings_HasPrefix_def)
  show ?thesis
  proof (cases x)
    case Nil
    then show ?thesis by simp
  next
    case (Cons c r)
    with assms(2) have c: "c = CHR ''.''" by simp
    have "CHR ''.'' \<in> set (take (length p) (s @ x))"
      using short Cons c by (simp add: take_Cons')
    with assms(1) have "take (length p) (s @ x) \<noteq> p" by metis
    with no show ?thesis by (simp add: strings_HasPrefix_def)
  qed
qed

lemma TrimPrefix_before_dot:
  assumes "CHR ''.'' \<notin> set p" "x = [] \<or> (\<exists>r. x = CHR ''.'' # r)"
  shows "strings_TrimPrefix (s @ x) p = strings_TrimPrefix s p @ x"
proof (cases "strings_HasPrefix s p")
  case True
  then have "length p \<le> length s"
    by (metis strings_HasPrefix_def length_take min.cobounded2 min.commute)
  with True show ?thesis
    using HasPrefix_before_dot [OF assms, of s] by (simp add: strings_TrimPrefix_def)
next
  case False
  then show ?thesis
    using HasPrefix_before_dot [OF assms, of s] by (simp add: strings_TrimPrefix_def)
qed

lemma stripPrefixes_modifiers:
  "stripPrefixes (key @ modifiers ms) = stripPrefixes key @ modifiers ms"
  by (simp add: stripPrefixes_def TrimPrefix_before_dot modifiers_shape)

lemma TrimPrefix_dot_free:
  "CHR ''.'' \<notin> set s \<Longrightarrow> CHR ''.'' \<notin> set (strings_TrimPrefix s p)"
  by (auto simp: strings_TrimPrefix_def dest: in_set_dropD)

lemma bindAttr_stripPrefixes:
  "bindAttr key st =
     (if strings_HasPrefix key ''@fir:'' \<or> strings_HasPrefix key ''x-on:fir:'' then
        let eventns = stripPrefixes key;
            eventnsParts = strings_SplitAll eventns ''.''
        in if length eventnsParts > 3 then Inr (fst st, snd st @ [EventFormatError eventns])
           else bindEventns (if length eventnsParts > 0 then eventnsParts ! 0 else eventns) st
      else Inr st)"
  by (simp add: bindAttr_def stripPrefixes_def Let_def)

text \<open>
  C4, as the code has it. The claim: the parser keeps the first segment however many
  modifiers follow, and modifiers alone never cause a format error. The code counts
  the segments first and rejects a key of more than three. What holds: for a binding
  key without a dot and modifiers without dots, the key with at most two modifiers is
  scanned exactly as the key alone (same table, same logged lines, same panic if
  any); with three or more modifiers the key is logged as a format error, the table
  is unchanged and the scan goes on.
\<close>

theorem bindAttr_modifiers:
  assumes "strings_HasPrefix key ''@fir:'' \<or> strings_HasPrefix key ''x-on:fir:''"
    and "CHR ''.'' \<notin> set key"
    and "\<forall>m\<in>set ms. CHR ''.'' \<notin> set m"
  shows "bindAttr (key @ modifiers ms) st =
           (if length ms \<le> 2 then bindAttr key st
            else Inr (fst st, snd st @ [EventFormatError (stripPrefixes (key @ modifiers ms))]))"
proof -
  let ?E = "stripPrefixes key"
  have free: "CHR ''.'' \<notin> set ?E"
    using assms(2) by (simp add: stripPrefixes_def TrimPrefix_dot_free)
  have pre: "strings_HasPrefix (key @ modifiers ms) ''@fir:''
               \<or> strings_HasPrefix (key @ modifiers ms) ''x-on:fir:''"
    using assms(1) by (simp add: HasPrefix_before_dot modifiers_shape)
  have split_mods: "strings_SplitAll (stripPrefixes (key @ modifiers ms)) ''.'' = ?E # ms"
    using SplitAll_modifiers [OF free assms(3)] by (simp add: stripPrefixes_modifiers)
  have split_plain: "strings_SplitAll ?E ''.'' = [?E]"
    using SplitAll_modifiers [OF free, of "[]"] by (simp add: modifiers_def)
  have plain: "bindAttr key st = bindEventns ?E st"
    using assms(1) by (simp add: bindAttr_stripPrefixes split_plain)
  have mods: "bindAttr (key @ modifiers ms) st =
      (if length ms > 2
       then Inr (fst st, snd st @ [EventFormatError (stripPrefixes (key @ modifiers ms))])
       else bindEventns ?E st)"
    using pre by (simp add: bindAttr_stripPrefixes [of "key @ modifiers ms"] split_mods Let_def)
  from plain mods show ?thesis by auto
qed

theorem bindAttr_modifiers_witness:
  "''@fir:like:ok'' @ modifiers [''prevent'', ''stop''] = ''@fir:like:ok.prevent.stop''
   \<and> bindAttr ''@fir:like:ok.prevent.stop'' (RouteBindings, [])
       = bindAttr ''@fir:like:ok'' (RouteBindings, [])
   \<and> bindAttr ''@fir:like:ok'' (RouteBindings, []) = Inr (likeBindings, [])"
proof -
  have p: "strings_HasPrefix ''@fir:like:ok'' ''@fir:''
      \<or> strings_HasPrefix ''@fir:like:ok'' ''x-on:fir:''"
    by (simp add: strings_HasPrefix_def)
  have k: "CHR ''.'' \<notin> set ''@fir:like:ok''" by simp
  have m: "\<forall>m\<in>set [''prevent'', ''stop'']. CHR ''.'' \<notin> set m" by simp
  have j: "''@fir:like:ok'' @ modifiers [''prevent'', ''stop''] = ''@fir:like:ok.prevent.stop''"
    by (simp add: modifiers_def)
  have r: "bindAttr ''@fir:like:ok'' (RouteBindings, []) = Inr (likeBindings, [])"
    by (simp add: bind_defs regex_defs likeBindings_def RouteBindings_def)
  from bindAttr_modifiers [OF p k m, of "(RouteBindings, [])"] j r show ?thesis by simp
qed

theorem bindAttr_three_modifiers_format_error:
  "bindAttr ''@fir:like:ok.prevent.stop.once'' (RouteBindings, [])
     = Inr (RouteBindings, [EventFormatError ''like:ok.prevent.stop.once''])
   \<and> bindAttr ''@fir:like:ok'' (RouteBindings, []) = Inr (likeBindings, [])"
  by (simp add: bind_defs regex_defs likeBindings_def RouteBindings_def)

section \<open>Scanning: what is recorded\<close>

lemma splitFrom_colons_free:
  "CHR '':'' \<notin> set a \<Longrightarrow> splitFrom ''::'' cur a = [rev cur @ a]"
  by (induction a arbitrary: cur) auto

lemma splitFrom_colons_single:
  "CHR '':'' \<notin> set a \<Longrightarrow> CHR '':'' \<notin> set s \<Longrightarrow> s \<noteq> [] \<Longrightarrow>
     splitFrom ''::'' cur (a @ CHR '':'' # s) = [rev cur @ a @ CHR '':'' # s]"
proof (induction a arbitrary: cur)
  case Nil
  then obtain x xs where s: "s = x # xs" by (cases s) auto
  with Nil have "x \<noteq> CHR '':''" by auto
  with s Nil splitFrom_colons_free [of s "CHR '':'' # cur"] show ?case by simp
next
  case (Cons y ys)
  then show ?case by auto
qed

lemma regex_hyphen: "templateNameRegex_MatchString ''-''"
  by (simp add: regex_defs)

text \<open>
  X1. The four binding forms without a template: for a key with a binding prefix whose
  namespace is \<open>ev:state\<close>, with a state of the four and an event name without colon
  and dot, the scan step adds the name \<open>-\<close> to the set of the key \<open>ev:state\<close>, logs
  nothing and does not panic.
\<close>

theorem bindAttr_plain_form_recorded:
  assumes "strings_HasPrefix key ''@fir:'' \<or> strings_HasPrefix key ''x-on:fir:''"
    and "stripPrefixes key = ev @ '':'' @ st"
    and "CHR '':'' \<notin> set ev" and "CHR ''.'' \<notin> set ev"
    and "st \<in> set [''ok'', ''error'', ''pending'', ''done'']"
  shows "bindAttr key (b, lg) =
           Inr (b\<lparr>eventTemplates := (eventTemplates b)
                    (ev @ '':'' @ st \<mapsto> List.insert ''-''
                       (case eventTemplates b (ev @ '':'' @ st) of None \<Rightarrow> [] | Some ts \<Rightarrow> ts))\<rparr>,
                lg)"
proof -
  let ?ns = "ev @ '':'' @ st"
  from assms(5) have st: "CHR '':'' \<notin> set st" "CHR ''.'' \<notin> set st" "st \<noteq> []" by auto
  have dots: "strings_SplitAll ?ns ''.'' = [?ns]"
    using assms(4) st by (simp add: strings_SplitAll_def splitFrom_char_free)
  have colons2: "strings_SplitAll ?ns ''::'' = [?ns]"
    using splitFrom_colons_single [OF assms(3) st(1,3), of "[]"]
    by (simp add: strings_SplitAll_def)
  have colon1: "strings_SplitAll ?ns '':'' = [ev, st]"
    using splitFrom_char_segment [OF assms(3), of "[]" st] splitFrom_char_free [OF st(1), of "[]"]
    by (simp add: strings_SplitAll_def)
  have step: "bindAttr key (b, lg) = bindEventns ?ns (b, lg)"
    using assms(1,2) dots by (simp add: bindAttr_stripPrefixes Let_def)
  have "bindEventns ?ns (b, lg) =
           Inr (b\<lparr>eventTemplates := (eventTemplates b)
                    (?ns \<mapsto> List.insert ''-''
                       (case eventTemplates b ?ns of None \<Rightarrow> [] | Some ts \<Rightarrow> ts))\<rparr>,
                lg)"
    using assms(5) colons2 colon1
    by (simp add: bindEventns_def slices_Contains_def regex_hyphen Let_def)
  with step show ?thesis by simp
qed

theorem bindAttr_plain_form_recorded_witness:
  "stripPrefixes ''x-on:fir:like:ok'' = ''like'' @ '':'' @ ''ok''
   \<and> bindAttr ''x-on:fir:like:ok'' (RouteBindings, []) = Inr (likeBindings, [])"
proof -
  have p: "strings_HasPrefix ''x-on:fir:like:ok'' ''@fir:''
      \<or> strings_HasPrefix ''x-on:fir:like:ok'' ''x-on:fir:''"
    by (simp add: strings_HasPrefix_def)
  have n: "stripPrefixes ''x-on:fir:like:ok'' = ''like'' @ '':'' @ ''ok''"
    by (simp add: stripPrefixes_def strings_TrimPrefix_def strings_HasPrefix_def)
  have c: "CHR '':'' \<notin> set ''like''" and d: "CHR ''.'' \<notin> set ''like''"
    and s: "''ok'' \<in> set [''ok'', ''error'', ''pending'', ''done'']"
    by simp_all
  from bindAttr_plain_form_recorded [OF p n c d s, of RouteBindings "[]"] n
  show ?thesis by (simp add: RouteBindings_def likeBindings_def)
qed

text \<open>
  X2. A scan step that returns logs nothing but format errors, and records no template
  name but \<open>-\<close>: the lines logged after it are those logged before it and format
  errors, and every name in the table after it is \<open>-\<close> or was in the table under the
  same key. So the invalid-template-name line is never logged.
\<close>

theorem bindAttr_logs_format_errors_only:
  assumes "bindAttr key (b, lg) = Inr (b', lg')"
  shows "(\<forall>l\<in>set lg'. l \<in> set lg \<or> (\<exists>ns. l = EventFormatError ns))
     \<and> (\<forall>k ts n. eventTemplates b' k = Some ts \<and> n \<in> set ts \<longrightarrow>
           n = ''-'' \<or> (\<exists>ts0. eventTemplates b k = Some ts0 \<and> n \<in> set ts0))"
proof -
  have ev: "(\<forall>l\<in>set lg'. l \<in> set lg \<or> (\<exists>ns. l = EventFormatError ns))
     \<and> (\<forall>k ts n. eventTemplates b' k = Some ts \<and> n \<in> set ts \<longrightarrow>
           n = ''-'' \<or> (\<exists>ts0. eventTemplates b k = Some ts0 \<and> n \<in> set ts0))"
    if "bindEventns ns (b, lg) = Inr (b', lg')" for ns
    using that
    by (auto simp: bindEventns_def Let_def index_def regex_hyphen
        split: if_splits sum.splits option.splits)
  show ?thesis
  proof (cases "strings_HasPrefix key ''@fir:'' \<or> strings_HasPrefix key ''x-on:fir:''")
    case False
    with assms have "b' = b" "lg' = lg" by (simp_all add: bindAttr_def)
    then show ?thesis by auto
  next
    case True
    let ?ns = "stripPrefixes key"
    let ?parts = "strings_SplitAll ?ns ''.''"
    show ?thesis
    proof (cases "length ?parts > 3")
      case long: True
      with True assms have "b' = b" "lg' = lg @ [EventFormatError ?ns]"
        by (simp_all add: bindAttr_stripPrefixes Let_def)
      then show ?thesis by auto
    next
      case short: False
      with True assms
      have "bindEventns (if length ?parts > 0 then ?parts ! 0 else ?ns) (b, lg) = Inr (b', lg')"
        by (simp add: bindAttr_stripPrefixes Let_def)
      then show ?thesis by (rule ev)
    qed
  qed
qed

theorem bindAttr_logs_format_errors_only_witness:
  "bindAttr ''@fir:like:ok::bad_name.once'' (likeBindings, [])
     = Inl (IndexOutOfRange 2 2)
   \<and> bindAttr ''@fir:like:pending::tmpl'' (likeBindings, [])
     = Inr (likeBindings, [EventFormatError ''like:pending::tmpl''])
   \<and> eventTemplates likeBindings ''like:ok'' = Some [''-'']"
proof -
  have r: "bindAttr ''@fir:like:pending::tmpl'' (likeBindings, [])
     = Inr (likeBindings, [EventFormatError ''like:pending::tmpl''])"
    by (simp add: bind_defs)
  have p: "bindAttr ''@fir:like:ok::bad_name.once'' (likeBindings, [])
     = Inl (IndexOutOfRange 2 2)"
    by (simp add: bind_defs)
  have t: "eventTemplates likeBindings ''like:ok'' = Some [''-'']"
    by (simp add: likeBindings_def)
  from bindAttr_logs_format_errors_only [OF r] p r t show ?thesis by simp
qed

section \<open>Lookup in the binding table\<close>

text \<open>
  C9. For a key with no recorded bindings (no entry in the table, or an entry with no
  name), \<open>TemplateNames\<close> returns the empty list. The function has no error result:
  it is total and returns a list.
\<close>

theorem TemplateNames_unbound_empty:
  assumes "eventTemplates b key = None \<or> eventTemplates b key = Some []"
  shows "TemplateNames b key = []"
  using assms by (auto simp: TemplateNames_def)

theorem TemplateNames_unbound_empty_witness:
  "AddFile (Document [[''@fir:like:ok'']]) RouteBindings = Inr (likeBindings, [])
   \<and> eventTemplates likeBindings ''save:ok'' = None
   \<and> TemplateNames likeBindings ''save:ok'' = []"
proof -
  have none: "eventTemplates likeBindings ''save:ok'' = None"
    by (simp add: likeBindings_def)
  have scanned: "AddFile (Document [[''@fir:like:ok'']]) RouteBindings = Inr (likeBindings, [])"
    by (simp add: AddFile_def bind_defs likeBindings_def RouteBindings_def regex_defs)
  from none have "eventTemplates likeBindings ''save:ok'' = None
      \<or> eventTemplates likeBindings ''save:ok'' = Some []" by simp
  from TemplateNames_unbound_empty [OF this] scanned none show ?thesis by simp
qed

section \<open>The template value builder\<close>

text \<open>
  C10. With a nil template handle or the empty template name, \<open>buildTemplateValue\<close>
  returns the empty string and a nil error, whatever the data, the handle and the
  minifier are (also a handle and a minifier that fail on every input: neither is
  run). Under the error state the loop of \<open>renderDOMEvents\<close> then goes on to the next
  template name with the events unchanged: the event of this name is skipped.
\<close>

theorem buildTemplateValue_nil_handle_or_empty_name:
  assumes "t = None \<or> name = ''''"
  shows "buildTemplateValue mini t name d = Inr (Inr '''')
     \<and> (evState ev = eventstate_Error \<and> template (route ctx) = t \<and> name \<noteq> ''-''
          \<longrightarrow> renderLoop mini ctx ev eid key (name # rest) events
              = renderLoop mini ctx ev eid key rest events)"
proof -
  have b: "buildTemplateValue mini t name x = Inr (Inr '''')" for x
    using assms by (auto simp: buildTemplateValue_def split: option.splits)
  show ?thesis
    by (cases "evDetail ev") (simp_all add: b)
qed

theorem buildTemplateValue_nil_handle_or_empty_name_witness:
  "buildTemplateValue failingMinifier None ''name-error'' AnyNil = Inr (Inr '''')
   \<and> evState formErrorEvent = eventstate_Error
   \<and> template (route nilTemplateContext) = None
   \<and> renderLoop failingMinifier nilTemplateContext formErrorEvent ''form'' ''form:error''
        [''name-error''] [] = Inr []"
proof -
  have h: "(None :: Template option) = None \<or> ''name-error'' = ''''" by simp
  have s: "evState formErrorEvent = eventstate_Error"
    by (simp add: formErrorEvent_def)
  have t: "template (route nilTemplateContext) = None"
    by (simp add: nilTemplateContext_def)
  from buildTemplateValue_nil_handle_or_empty_name
         [OF h, of failingMinifier AnyNil formErrorEvent nilTemplateContext
            "''form''" "''form:error''" "[]" "[]"] s t
  show ?thesis by simp
qed

text \<open>
  C8, as the code has it. The claim: \<open>buildTemplateValue\<close> fails with an error, never
  a crash, when the engine fails or when the name \<open>_fir_html\<close> comes with data that is
  not a string. The code asserts \<open>data.(string)\<close> in the single-valued form, which
  panics on any other data. What holds, for a template name that is not empty and a
  handle that is not nil: under another name the engine's error is returned as the
  error, and its output is minified; under \<open>_fir_html\<close> a string is minified as it is,
  whatever the handle would do, and any other data is the type-assertion panic. The
  older copy of the function (in the file of \<open>domEvents\<close>) does the same.
\<close>

theorem buildTemplateValue_engine_and_sentinel:
  assumes "name \<noteq> ''''" and "name \<noteq> ''_fir_html''"
  shows
   "buildTemplateValue mini (Some tmpl) name d =
       (case tmpl name d of Inl err \<Rightarrow> Inr (Inl err) | Inr out \<Rightarrow> Inr (mini out))
    \<and> buildTemplateValue mini (Some tmpl) ''_fir_html'' d =
       (case d of AnyString s \<Rightarrow> Inr (mini s) | _ \<Rightarrow> Inl TypeAssertion)
    \<and> buildTemplateValue_domEvents mini (Some tmpl) name d =
       (case tmpl name d of Inl err \<Rightarrow> Inr (Inl err) | Inr out \<Rightarrow> Inr (mini out))
    \<and> buildTemplateValue_domEvents mini t ''_fir_html'' d =
       (case d of AnyString s \<Rightarrow> Inr (mini s) | _ \<Rightarrow> Inl TypeAssertion)"
  using assms
  by (auto simp: buildTemplateValue_def buildTemplateValue_domEvents_def
      split: sum.splits any.splits)

theorem buildTemplateValue_engine_and_sentinel_witness:
  "buildTemplateValue exampleMinifier (Some exampleTemplate) ''missing'' AnyNil
     = Inr (Inl ''template: no such template'')
   \<and> buildTemplateValue exampleMinifier (Some exampleTemplate) ''name-error'' AnyNil
     = Inr (Inr ''<span>required</span>'')
   \<and> buildTemplateValue exampleMinifier (Some failingTemplate) ''_fir_html'' (AnyString ''<b>hi</b>'')
     = Inr (Inr ''<b>hi</b>'')
   \<and> buildTemplateValue failingMinifier (Some exampleTemplate) ''_fir_html'' (AnyString ''<b>hi</b>'')
     = Inr (Inl ''minify: copy failed'')"
proof -
  have n1: "''missing'' \<noteq> ''''" and n2: "''missing'' \<noteq> ''_fir_html''" by simp_all
  have m1: "''name-error'' \<noteq> ''''" and m2: "''name-error'' \<noteq> ''_fir_html''" by simp_all
  from buildTemplateValue_engine_and_sentinel
         [OF n1 n2, of exampleMinifier exampleTemplate AnyNil None]
       buildTemplateValue_engine_and_sentinel
         [OF m1 m2, of exampleMinifier exampleTemplate AnyNil None]
       buildTemplateValue_engine_and_sentinel
         [OF m1 m2, of exampleMinifier failingTemplate "AnyString ''<b>hi</b>''" None]
       buildTemplateValue_engine_and_sentinel
         [OF m1 m2, of failingMinifier exampleTemplate "AnyString ''<b>hi</b>''" None]
  show ?thesis
    by (simp add: exampleTemplate_def exampleMinifier_def failingMinifier_def)
qed

theorem buildTemplateValue_sentinel_panics:
  "buildTemplateValue exampleMinifier (Some exampleTemplate) ''_fir_html'' (AnyInt 42)
     = Inl TypeAssertion
   \<and> buildTemplateValue_domEvents exampleMinifier (Some exampleTemplate) ''_fir_html'' AnyNil
     = Inl TypeAssertion"
  by (simp add: buildTemplateValue_def buildTemplateValue_domEvents_def)

section \<open>Reconciliation: the two loops\<close>

lemma trackLoop_events:
  "trackLoop events (ne, nv) = Inr (ne', nv') \<Longrightarrow> nv' = nv @ events"
proof (induction events arbitrary: ne nv)
  case Nil
  then show ?case by simp
next
  case (Cons e es)
  show ?case
  proof (cases "State e = eventstate_OK")
    case True
    with Cons.prems have "trackLoop es (ne, nv @ [e]) = Inr (ne', nv')" by simp
    from Cons.IH [OF this] show ?thesis by simp
  next
    case False
    with Cons.prems obtain ty tg where
      "trackLoop es (AList.update ty tg ne, nv @ [e]) = Inr (ne', nv')"
      by (auto split: option.splits)
    from Cons.IH [OF this] show ?thesis by simp
  qed
qed

lemma update_entries:
  "(a, b) \<in> set (AList.update k v al) \<Longrightarrow> (a, b) \<in> set al \<or> (a = k \<and> b = v)"
  by (induction al) (auto split: if_splits)


lemma trackLoop_entries:
  "trackLoop events (ne, nv) = Inr (ne', nv') \<Longrightarrow> (k, v) \<in> set ne' \<Longrightarrow>
     (k, v) \<in> set ne
     \<or> (\<exists>e\<in>set events. State e \<noteq> eventstate_OK \<and> Type e = Some k \<and> Target e = Some v)"
proof (induction events arbitrary: ne nv)
  case Nil
  then show ?case by simp
next
  case (Cons e es)
  show ?case
  proof (cases "State e = eventstate_OK")
    case True
    with Cons.prems have "trackLoop es (ne, nv @ [e]) = Inr (ne', nv')" by simp
    from Cons.IH [OF this Cons.prems(2)] show ?thesis by auto
  next
    case False
    with Cons.prems obtain ty tg where t: "Type e = Some ty" "Target e = Some tg"
      and r: "trackLoop es (AList.update ty tg ne, nv @ [e]) = Inr (ne', nv')"
      by (auto split: option.splits)
    from Cons.IH [OF r Cons.prems(2)] False t show ?thesis
      by (auto dest: update_entries)
  qed
qed



text \<open>
  The first loop returns when every event that is not ok has its \<open>Type\<close> and its
  \<open>Target\<close>; the events then come out as they went in.
\<close>

lemma trackLoop_returns:
  "\<forall>e\<in>set events. State e \<noteq> eventstate_OK \<longrightarrow> Type e \<noteq> None \<and> Target e \<noteq> None \<Longrightarrow>
     \<exists>ne'. trackLoop events (ne, nv) = Inr (ne', nv @ events)"
proof (induction events arbitrary: ne nv)
  case Nil
  then show ?case by simp
next
  case (Cons e es)
  then have rest: "\<forall>e\<in>set es. State e \<noteq> eventstate_OK \<longrightarrow> Type e \<noteq> None \<and> Target e \<noteq> None"
    by simp
  show ?case
  proof (cases "State e = eventstate_OK")
    case True
    with Cons.IH [OF rest, of ne "nv @ [e]"] show ?thesis by simp
  next
    case False
    with Cons.prems obtain ty tg where t: "Type e = Some ty" "Target e = Some tg" by auto
    with False Cons.IH [OF rest, of "AList.update ty tg ne" "nv @ [e]"] show ?thesis by simp
  qed
qed

lemma clearLoop_clearingEvents:
  "clearLoop prev new acc = acc @ clearingEvents prev new"
  by (induction prev arbitrary: acc) (auto simp: clearingEvents_def clearingEvent_def)

lemma fir_key: "fir [eventIDWithState eid st] = Some (''fir:'' @ eid @ '':'' @ st)"
  by (simp add: fir_def eventIDWithState_def)

text \<open>
  What \<open>trackErrors\<close> returns once the session id, the event id and the cached value
  are there and the first loop has returned.
\<close>

lemma trackErrors_result:
  assumes "evSessionID ev = Some sid"
    and "evID ev = Some eid"
    and "(cache (route ctx) sid = None \<and> prev = []) \<or> cache (route ctx) sid = Some (StringMap prev)"
    and "trackLoop events ([], []) = Inr (new, out)"
  shows "trackErrors ctx ev events =
           Inr (if events = [] \<and> clearingEvents prev new = [] then [fallbackEvent ev eid]
                else events @ clearingEvents prev new,
                (cache (route ctx))(sid \<mapsto> StringMap new))"
proof -
  have out: "out = events"
    using trackLoop_events [OF assms(4)] by simp
  have tl: "trackLoop events ([], []) = Inr (new, events)"
    using assms(4) out by simp
  have step: "trackErrors ctx ev events =
      (if length (clearLoop prev new events) = 0
       then Inr ([fallbackEvent ev eid], (cache (route ctx))(sid \<mapsto> StringMap new))
       else Inr (clearLoop prev new events, (cache (route ctx))(sid \<mapsto> StringMap new)))"
  proof -
    have emp: "events = [] \<Longrightarrow> new = []"
      using tl by auto
    show ?thesis
      using assms(1,2,3) emp
      by (auto simp: trackErrors_def tl fir_key fallbackEvent_def Let_def)
  qed
  show ?thesis
    unfolding step by (simp add: clearLoop_clearingEvents)
qed

lemma trackErrors_total:
  assumes "cache (route ctx) sid \<noteq> Some OtherValue"
    and "\<forall>e\<in>set events. State e \<noteq> eventstate_OK \<longrightarrow> Type e \<noteq> None \<and> Target e \<noteq> None"
  shows "\<exists>prev new.
       ((cache (route ctx) sid = None \<and> prev = []) \<or> cache (route ctx) sid = Some (StringMap prev))
     \<and> trackLoop events ([], []) = Inr (new, events)"
proof -
  from trackLoop_returns [OF assms(2), of "[]" "[]"]
  obtain new where tl: "trackLoop events ([], []) = Inr (new, events)" by auto
  show ?thesis
  proof (cases "cache (route ctx) sid")
    case None
    with tl show ?thesis by auto
  next
    case (Some cv)
    with assms(1) obtain m where "cv = StringMap m" by (cases cv) auto
    with Some tl show ?thesis by auto
  qed
qed

lemma trackErrors_never_empty:
  "trackErrors ctx ev events = Inr (evs, c) \<Longrightarrow> evs \<noteq> []"
  by (auto simp: trackErrors_def Let_def
      split: option.splits cache_value.splits sum.splits if_splits prod.splits)

lemma clearing_other_key:
  "k \<notin> fst ` set prev \<Longrightarrow> filter (\<lambda>e. Type e = Some k) (clearingEvents prev new) = []"
  by (induction prev) (auto simp: clearingEvents_def clearingEvent_def)

lemma clearing_of_key:
  "distinct (map fst prev) \<Longrightarrow> (k, v) \<in> set prev \<Longrightarrow>
     filter (\<lambda>e. Type e = Some k) (clearingEvents prev new) =
       (if map_of new k = None then [clearingEvent k v] else [])"
proof (induction prev)
  case Nil
  then show ?case by simp
next
  case (Cons p prev)
  obtain k' v' where p: "p = (k', v')" by (cases p)
  show ?case
  proof (cases "k' = k")
    case True
    with Cons.prems p have "v' = v" and "k \<notin> fst ` set prev"
      by (auto simp: image_iff)
    with True p clearing_other_key [of k prev new] show ?thesis
      by (simp add: clearingEvents_def clearingEvent_def)
  next
    case False
    with Cons.prems p have "(k, v) \<in> set prev" "distinct (map fst prev)" by auto
    with Cons.IH False p show ?thesis
      by (simp add: clearingEvents_def clearingEvent_def)
  qed
qed

section \<open>Reconciliation: what is tracked\<close>

lemmas fixture_defs = exampleContext_def exampleBindings_def exampleTemplate_def
  exampleMinifier_def templatedContext_def templatedBindings_def foreignCacheContext_def
  errorSeenContext_def formErrorEvent_def movedErrorEvent_def formOkEvent_def likeEvent_def
  savePendingEvent_def savePendingDomEvent_def formErrorDomEvent_def formErrorRendered_def

lemmas render_defs = renderDOMEvents_def trackErrors_def buildTemplateValue_def
  TemplateNames_def eventIDWithState_def fir_def newRouteDOMContext_def
  eventstate_OK_def eventstate_Error_def eventstate_Pending_def Let_def




section \<open>Reconciliation: at least one event\<close>




section \<open>Reconciliation: clearing events\<close>

text \<open>
  C7, as the code has it. The claim speaks of the pairs (type, target) of the previous
  mapping that are absent from the new one. The second loop of \<open>trackErrors\<close> looks
  the type up as a key of the new mapping and compares no target. What holds, for a
  previous mapping \<open>prev\<close> (a map: one entry per key) and the mapping \<open>new\<close> that the
  first loop builds: for every entry (k, v) of \<open>prev\<close>, if \<open>k\<close> is not a key of \<open>new\<close>,
  exactly one of the events appended after the candidates has the type \<open>k\<close>, and its
  target is \<open>v\<close> and its detail the empty string; if \<open>k\<close> is a key of \<open>new\<close> (with the
  same target or another), none of the appended events has the type \<open>k\<close>.
\<close>

theorem trackErrors_clears_by_type:
  assumes "evSessionID ev = Some sid"
    and "evID ev = Some eid"
    and "cache (route ctx) sid = Some (StringMap prev)"
    and "distinct (map fst prev)"
    and "trackLoop events ([], []) = Inr (new, out)"
  shows "\<exists>evs. trackErrors ctx ev events = Inr (evs, (cache (route ctx))(sid \<mapsto> StringMap new))
     \<and> (\<forall>(k, v)\<in>set prev.
          if k \<in> fst ` set new
          then filter (\<lambda>e. Type e = Some k) (drop (length events) evs) = []
          else \<exists>e. filter (\<lambda>e. Type e = Some k) (drop (length events) evs) = [e]
                  \<and> Target e = Some v \<and> Detail e = AnyString '''')"
proof -
  let ?cl = "clearingEvents prev new"
  let ?evs = "if events = [] \<and> ?cl = [] then [fallbackEvent ev eid] else events @ ?cl"
  have res: "trackErrors ctx ev events = Inr (?evs, (cache (route ctx))(sid \<mapsto> StringMap new))"
    using trackErrors_result [OF assms(1,2) _ assms(5), of ctx prev] assms(3) by simp
  have each: "if k \<in> fst ` set new
          then filter (\<lambda>e. Type e = Some k) (drop (length events) ?evs) = []
          else \<exists>e. filter (\<lambda>e. Type e = Some k) (drop (length events) ?evs) = [e]
                  \<and> Target e = Some v \<and> Detail e = AnyString ''''"
    if kv: "(k, v) \<in> set prev" for k v
  proof -
    have f: "filter (\<lambda>e. Type e = Some k) ?cl =
        (if map_of new k = None then [clearingEvent k v] else [])"
      using clearing_of_key [OF assms(4) kv] .
    show ?thesis
    proof (cases "k \<in> fst ` set new")
      case True
      then have "map_of new k \<noteq> None" by (simp add: map_of_eq_None_iff)
      with f have empty: "filter (\<lambda>e. Type e = Some k) ?cl = []" by simp
      have "events \<noteq> []"
      proof
        assume "events = []"
        with assms(5) have "new = []" by simp
        with True show False by simp
      qed
      with True empty show ?thesis by simp
    next
      case False
      then have none: "map_of new k = None" by (simp add: map_of_eq_None_iff)
      with f have one: "filter (\<lambda>e. Type e = Some k) ?cl = [clearingEvent k v]" by simp
      then have "?cl \<noteq> []" by auto
      with False one show ?thesis by (simp add: clearingEvent_def)
    qed
  qed
  from res each show ?thesis by blast
qed

theorem trackErrors_clears_by_type_witness:
  "cache (route errorSeenContext) ''s1''
     = Some (StringMap [(''fir:form:error'', ''#name-error'')])
   \<and> trackErrors errorSeenContext formOkEvent []
       = Inr ([clearingEvent ''fir:form:error'' ''#name-error''],
              (cache (route errorSeenContext))(''s1'' \<mapsto> StringMap []))
   \<and> (\<exists>evs. trackErrors errorSeenContext formOkEvent []
               = Inr (evs, (cache (route errorSeenContext))(''s1'' \<mapsto> StringMap []))
        \<and> (\<exists>e. filter (\<lambda>e. Type e = Some ''fir:form:error'') evs = [e]
              \<and> Target e = Some ''#name-error'' \<and> Detail e = AnyString ''''))"
proof -
  have s: "evSessionID formOkEvent = Some ''s1''"
    and i: "evID formOkEvent = Some ''form''"
    and c: "cache (route errorSeenContext) ''s1''
              = Some (StringMap [(''fir:form:error'', ''#name-error'')])"
    and d: "distinct (map fst [(''fir:form:error'', ''#name-error'')])"
    and t: "trackLoop [] ([], []) = Inr ([], [])"
    by (simp_all add: fixture_defs)
  have r: "trackErrors errorSeenContext formOkEvent []
       = Inr ([clearingEvent ''fir:form:error'' ''#name-error''],
              (cache (route errorSeenContext))(''s1'' \<mapsto> StringMap []))"
    by (simp add: fixture_defs render_defs clearingEvent_def)
  from trackErrors_clears_by_type [OF s i c d t] c r show ?thesis by simp
qed

theorem renderDOMEvents_moved_target_not_cleared:
  "renderDOMEvents exampleMinifier exampleContext formErrorEvent
     = Inr ([formErrorDomEvent ''#name-error''], cache (route errorSeenContext))
   \<and> renderDOMEvents exampleMinifier errorSeenContext movedErrorEvent
       = Inr ([formErrorDomEvent ''#other''],
              (cache (route errorSeenContext))
                (''s1'' \<mapsto> StringMap [(''fir:form:error'', ''#other'')]))"
  by (simp add: fixture_defs render_defs)

section \<open>Synthesis and reconciliation together\<close>

lemma buildTemplateValue_returns:
  "name \<noteq> ''_fir_html'' \<Longrightarrow> \<exists>r. buildTemplateValue mini t name d = Inr r"
  by (cases t) (auto simp: buildTemplateValue_def split: sum.splits)

text \<open>
  The loop over the template names returns when no name is \<open>_fir_html\<close>, with at most
  one event per name, each with the state and the target of the bus event.
\<close>

lemma renderLoop_returns:
  assumes "''_fir_html'' \<notin> set names"
  shows "\<exists>out. renderLoop mini ctx ev eid key names acc = Inr out
     \<and> length out \<le> length acc + length names
     \<and> (\<forall>e\<in>set out. e \<in> set acc
           \<or> (State e = evState ev \<and> Target e = evTarget ev \<and> Type e \<noteq> None))"
  using assms
proof (induction names arbitrary: acc)
  case Nil
  then show ?case by simp
next
  case (Cons n names)
  then have n: "n \<noteq> ''_fir_html''" and rest: "''_fir_html'' \<notin> set names" by auto
  have skip: "\<exists>out. renderLoop mini ctx ev eid key names acc = Inr out
     \<and> length out \<le> length acc + length (n # names)
     \<and> (\<forall>e\<in>set out. e \<in> set acc
           \<or> (State e = evState ev \<and> Target e = evTarget ev \<and> Type e \<noteq> None))"
    using Cons.IH [OF rest, of acc] by auto
  have emit: "\<exists>out. renderLoop mini ctx ev eid key names (acc @ [x]) = Inr out
     \<and> length out \<le> length acc + length (n # names)
     \<and> (\<forall>e\<in>set out. e \<in> set acc
           \<or> (State e = evState ev \<and> Target e = evTarget ev \<and> Type e \<noteq> None))"
    if "State x = evState ev" "Target x = evTarget ev" "Type x \<noteq> None" for x
  proof -
    from Cons.IH [OF rest, of "acc @ [x]"]
    obtain out where o: "renderLoop mini ctx ev eid key names (acc @ [x]) = Inr out"
      and l: "length out \<le> length (acc @ [x]) + length names"
      and s: "\<forall>e\<in>set out. e \<in> set (acc @ [x])
           \<or> (State e = evState ev \<and> Target e = evTarget ev \<and> Type e \<noteq> None)"
      by blast
    from s that have "\<forall>e\<in>set out. e \<in> set acc
           \<or> (State e = evState ev \<and> Target e = evTarget ev \<and> Type e \<noteq> None)"
      by auto
    with o l show ?thesis by auto
  qed
  show ?case
  proof (cases "n = ''-''")
    case True
    then show ?thesis
      using emit [of "\<lparr>Type = fir [key], Target = evTarget ev, Detail = evDetail ev,
                       ID = eid, State = evState ev\<rparr>"]
      by (simp add: fir_def)
  next
    case False
    let ?td = "if evState ev = eventstate_Error \<and> evDetail ev \<noteq> AnyNil
               then (case evDetail ev of
                       AnyMap errs \<Rightarrow> Some (AnyMap [(''fir'', newRouteDOMContext ctx errs)])
                     | _ \<Rightarrow> None)
               else Some (evDetail ev)"
    show ?thesis
    proof (cases ?td)
      case None
      with False skip show ?thesis by simp
    next
      case (Some td)
      from buildTemplateValue_returns [OF n]
      obtain r where r: "buildTemplateValue mini (template (route ctx)) n td = Inr r" by blast
      show ?thesis
      proof (cases r)
        case (Inl err)
        with False Some r skip show ?thesis by simp
      next
        case (Inr v)
        show ?thesis
        proof (cases "evState ev = eventstate_Error \<and> v = ''''")
          case True
          with False Some r Inr skip show ?thesis by simp
        next
          case nonempty: False
          with False Some r Inr
            emit [of "\<lparr>Type = fir [key, n], Target = evTarget ev,
                        Detail = AnyString v, ID = key, State = evState ev\<rparr>"]
          show ?thesis by (auto simp: fir_def)
        qed
      qed
    qed
  qed
qed

text \<open>
  C2, as the code has it. The claim: the path never panics, whatever the detail, the
  target and the cached value are. \<open>trackErrors\<close> panics by its own \<open>panic\<close> call on a
  cached value that is not a \<open>map[string]string\<close>. What holds: for a bus event
  with its id and its session id, a cached value that is absent or a string map, a
  target unless the state is ok, and no binding to the name \<open>_fir_html\<close>, the path
  returns, whatever the detail is and whatever the template engine and the minifier
  do; the loop gives at most one candidate per bound template name (a failed or
  skipped render gives none), and at least one event is returned.
\<close>

theorem renderDOMEvents_returns:
  assumes "evID ev = Some eid"
    and "evSessionID ev = Some sid"
    and "cache (route ctx) sid \<noteq> Some OtherValue"
    and "evState ev = eventstate_OK \<or> evTarget ev \<noteq> None"
    and "''_fir_html'' \<notin> set (TemplateNames (bindings (route ctx)) (eventIDWithState eid (evState ev)))"
  shows "\<exists>cands evs c.
       renderLoop mini ctx ev eid (eventIDWithState eid (evState ev))
         (TemplateNames (bindings (route ctx)) (eventIDWithState eid (evState ev))) [] = Inr cands
     \<and> length cands \<le> length (TemplateNames (bindings (route ctx)) (eventIDWithState eid (evState ev)))
     \<and> renderDOMEvents mini ctx ev = Inr (evs, c)
     \<and> evs \<noteq> []"
proof -
  let ?key = "eventIDWithState eid (evState ev)"
  let ?names = "TemplateNames (bindings (route ctx)) ?key"
  from renderLoop_returns [OF assms(5), of mini ctx ev eid ?key "[]"]
  obtain cands where rl: "renderLoop mini ctx ev eid ?key ?names [] = Inr cands"
    and len: "length cands \<le> length ?names"
    and shape: "\<forall>e\<in>set cands. State e = evState ev \<and> Target e = evTarget ev \<and> Type e \<noteq> None"
    by auto
  from shape assms(4)
  have ok: "\<forall>e\<in>set cands. State e \<noteq> eventstate_OK \<longrightarrow> Type e \<noteq> None \<and> Target e \<noteq> None"
    by auto
  from trackErrors_total [OF assms(3) ok]
  obtain prev new where
    "(cache (route ctx) sid = None \<and> prev = []) \<or> cache (route ctx) sid = Some (StringMap prev)"
    and "trackLoop cands ([], []) = Inr (new, cands)" by blast
  from trackErrors_result [OF assms(2,1) this]
  obtain evs c where te: "trackErrors ctx ev cands = Inr (evs, c)" by blast
  then have ne: "evs \<noteq> []" by (rule trackErrors_never_empty)
  have "renderDOMEvents mini ctx ev = Inr (evs, c)"
    by (simp add: renderDOMEvents_def assms(1) rl te)
  with rl len ne show ?thesis by blast
qed

theorem renderDOMEvents_returns_witness:
  "renderDOMEvents exampleMinifier templatedContext formErrorEvent
     = Inr ([formErrorRendered],
            (cache (route templatedContext))
              (''s1'' \<mapsto> StringMap [(''fir:form:error:name-error'', ''#name-error'')]))
   \<and> (\<exists>cands evs c.
        renderLoop failingMinifier templatedContext formErrorEvent ''form''
          (eventIDWithState ''form'' (evState formErrorEvent))
          (TemplateNames (bindings (route templatedContext))
             (eventIDWithState ''form'' (evState formErrorEvent))) [] = Inr cands
      \<and> length cands \<le> length (TemplateNames (bindings (route templatedContext))
                                 (eventIDWithState ''form'' (evState formErrorEvent)))
      \<and> renderDOMEvents failingMinifier templatedContext formErrorEvent = Inr (evs, c)
      \<and> evs \<noteq> [])"
proof -
  have i: "evID formErrorEvent = Some ''form''"
    and s: "evSessionID formErrorEvent = Some ''s1''"
    and c: "cache (route templatedContext) ''s1'' \<noteq> Some OtherValue"
    and t: "evState formErrorEvent = eventstate_OK \<or> evTarget formErrorEvent \<noteq> None"
    and n: "''_fir_html'' \<notin> set (TemplateNames (bindings (route templatedContext))
                                   (eventIDWithState ''form'' (evState formErrorEvent)))"
    by (simp_all add: fixture_defs TemplateNames_def eventIDWithState_def eventstate_Error_def)
  have r: "renderDOMEvents exampleMinifier templatedContext formErrorEvent
     = Inr ([formErrorRendered],
            (cache (route templatedContext))
              (''s1'' \<mapsto> StringMap [(''fir:form:error:name-error'', ''#name-error'')]))"
    by (simp add: fixture_defs render_defs)
  from renderDOMEvents_returns [OF i s c t n, of failingMinifier] r show ?thesis by blast
qed

theorem renderDOMEvents_foreign_cache_value_panics:
  "cache (route foreignCacheContext) ''s1'' = Some OtherValue
   \<and> renderDOMEvents exampleMinifier foreignCacheContext likeEvent
       = Inl (Explicit ''fir: cache value is not a map[string]string'')"
  by (simp add: fixture_defs render_defs)

text \<open>
  X3. The first scenario of the specification: with \<open>like:ok\<close> bound to \<open>-\<close>, the ok
  event of \<open>like\<close> with target \<open>#likes\<close> and detail 42 gives the one event of type
  \<open>fir:like:ok\<close> with that target and that detail, and an empty mapping in the cache.
\<close>

theorem renderDOMEvents_like_scenario:
  "renderDOMEvents exampleMinifier exampleContext likeEvent
     = Inr ([\<lparr>Type = Some ''fir:like:ok'', Target = Some ''#likes'', Detail = AnyInt 42,
              ID = ''like'', State = ''ok''\<rparr>],
            (cache (route exampleContext))(''s1'' \<mapsto> StringMap []))"
  by (simp add: fixture_defs render_defs)

end
